theory Spec2Isabelle
  imports Complex_Main "HOL-Library.Sublist"
begin

section \<open>Data model (types.ts)\<close>

text \<open>
  The interfaces of the repository's type declarations become records; string-literal
  unions become datatypes. JavaScript's \<open>number\<close> is modelled as \<open>int\<close> where the
  code only stores and compares small integers (\<open>Step.order\<close>, the turn counter is
  a \<open>nat\<close> because it starts at 0 and is only incremented). The numbers of the
  audio clock are double-precision floats in the code; they are modelled by a type
  parameter \<open>'n\<close>, see the session state below.
\<close>

datatype StepType = vocabulary | listening | reading | grammar | speaking | challenge

datatype ProficiencyLevel = A1 | A2 | B1 | B2 | C1

datatype LearningMode = assisted | immersion

record LanguageOption =
  lang_code :: string
  lang_name :: string
  lang_flag :: string

record Step =
  step_id :: string
  step_title :: string
  step_type :: StepType
  step_order :: int

record Subject =
  subject_id :: string
  subject_title :: string
  subject_description :: string
  subject_icon :: string
  subject_color :: string
  subject_steps :: "Step list"

record Level =
  level_id :: ProficiencyLevel
  level_title :: string
  level_subjects :: "Subject list"

record UserProfile =
  user_name :: string
  nativeLanguage :: LanguageOption
  user_mode :: LearningMode
  currentLevel :: ProficiencyLevel
  completedSubjects :: "string list"
  completedSteps :: "string list"

section \<open>Progress bookkeeping (App.tsx)\<close>

record ActiveSession =
  as_level :: Level
  as_subject :: Subject
  as_step :: Step

record AppState =
  userProfile :: "UserProfile option"
  activeSession :: "ActiveSession option"

text \<open>The template literal \<open>`${subjectId}-${stepId}`\<close>.\<close>

definition compositeId :: "string \<Rightarrow> string \<Rightarrow> string" where
  "compositeId subjectId stepId = subjectId @ ''-'' @ stepId"

text \<open>
  \<open>handleSessionComplete\<close>: returns at once when there is no profile or no active
  session; otherwise copies both progress arrays, pushes the composite id unless the copy
  includes it, pushes the subject id when the step's order is 6 unless the copy
  includes it, stores the new profile and clears the active session.
\<close>

definition handleSessionComplete :: "AppState \<Rightarrow> AppState" where
  "handleSessionComplete st =
     (case userProfile st of
        None \<Rightarrow> st
      | Some u \<Rightarrow>
        (case activeSession st of
           None \<Rightarrow> st
         | Some a \<Rightarrow>
           (let stepCompositeId = compositeId (subject_id (as_subject a)) (step_id (as_step a));
                newCompletedSteps =
                  (if stepCompositeId \<notin> set (completedSteps u)
                   then completedSteps u @ [stepCompositeId]
                   else completedSteps u);
                newCompletedSubjects =
                  (if step_order (as_step a) = 6
                   then (if subject_id (as_subject a) \<notin> set (completedSubjects u)
                         then completedSubjects u @ [subject_id (as_subject a)]
                         else completedSubjects u)
                   else completedSubjects u)
            in st\<lparr>userProfile :=
                      Some (u\<lparr>completedSteps := newCompletedSteps,
                              completedSubjects := newCompletedSubjects\<rparr>),
                    activeSession := None\<rparr>)))"

section \<open>The lesson map's unlock rule (LessonMap.tsx)\<close>

record StepItem =
  item_level :: Level
  item_subject :: Subject
  item_step :: Step
  globalIndex :: nat
  isSubjectStart :: bool
  isLevelStart :: bool

text \<open>
  \<open>allSteps\<close>: three nested \<open>forEach\<close> iterations over levels, subjects (with index
  \<open>sIdx\<close>) and steps (with index \<open>stepIdx\<close>), pushing one item per step and
  incrementing the running counter \<open>gIndex\<close>. The iteration state is the pair of the counter
  and the list built so far.
\<close>

definition pushStep :: "Level \<Rightarrow> nat \<Rightarrow> Subject \<Rightarrow> nat \<times> StepItem list \<Rightarrow> nat \<times> Step
    \<Rightarrow> nat \<times> StepItem list" where
  "pushStep level sIdx subject acc p =
     (case acc of (gIndex, stepsList) \<Rightarrow>
        (case p of (stepIdx, step) \<Rightarrow>
           (gIndex + 1,
            stepsList @ [\<lparr>item_level = level, item_subject = subject, item_step = step,
                          globalIndex = gIndex, isSubjectStart = (stepIdx = 0),
                          isLevelStart = (sIdx = 0 \<and> stepIdx = 0)\<rparr>])))"

definition pushSubject :: "Level \<Rightarrow> nat \<times> StepItem list \<Rightarrow> nat \<times> Subject \<Rightarrow> nat \<times> StepItem list" where
  "pushSubject level acc p =
     (case p of (sIdx, subject) \<Rightarrow>
        foldl (pushStep level sIdx subject) acc (enumerate 0 (subject_steps subject)))"

definition pushLevel :: "nat \<times> StepItem list \<Rightarrow> Level \<Rightarrow> nat \<times> StepItem list" where
  "pushLevel acc level = foldl (pushSubject level) acc (enumerate 0 (level_subjects level))"

definition allSteps :: "Level list \<Rightarrow> StepItem list" where
  "allSteps curriculum = snd (foldl pushLevel (0, []) curriculum)"

definition isCompleted :: "UserProfile \<Rightarrow> string \<Rightarrow> string \<Rightarrow> bool" where
  "isCompleted user subjectId stepId \<longleftrightarrow> compositeId subjectId stepId \<in> set (completedSteps user)"

datatype js_error = TypeError

text \<open>
  \<open>isUnlocked\<close>: index 0 is unlocked; otherwise the previous item is read from
  \<open>allSteps\<close>. Reading past the end of a JavaScript array gives \<open>undefined\<close>, and the
  property access \<open>prevStepObj.subject\<close> on it throws a TypeError.
\<close>

definition isUnlocked :: "UserProfile \<Rightarrow> Level list \<Rightarrow> nat \<Rightarrow> js_error + bool" where
  "isUnlocked user curriculum index =
     (if index = 0 then Inr True
      else if index - 1 < length (allSteps curriculum)
      then (let prevStepObj = allSteps curriculum ! (index - 1)
            in Inr (isCompleted user (subject_id (item_subject prevStepObj))
                                     (step_id (item_step prevStepObj))))
      else Inl TypeError)"

section \<open>The completion gate (LiveSession.tsx)\<close>

definition canComplete :: "nat \<Rightarrow> bool" where
  "canComplete turnCount \<longleftrightarrow> turnCount \<ge> 3"

datatype callback = OnComplete | OnDisconnect

text \<open>
  The "Complete Lesson" button: \<open>onClick={canComplete ? onComplete : undefined}\<close> and
  \<open>disabled={!canComplete}\<close>.
\<close>

record button =
  onClick :: "callback option"
  disabled :: bool

definition completeButton :: "nat \<Rightarrow> button" where
  "completeButton turnCount =
     \<lparr>onClick = (if canComplete turnCount then Some OnComplete else None),
      disabled = (\<not> canComplete turnCount)\<rparr>"

section \<open>JavaScript strings\<close>

text \<open>
  Transcript text is a JavaScript string: a sequence of UTF-16 code units, modelled as a
  list of their numeric values. \<open>js\<close> embeds an ASCII literal. The identifiers of the
  curriculum above are kept as \<open>string\<close> because the code only concatenates and
  compares them.
\<close>

type_synonym jsstring = "nat list"

definition js :: "string \<Rightarrow> jsstring" where
  "js s = map of_char s"

text \<open>
  \<open>String.prototype.trim\<close> removes WhiteSpace and LineTerminator code points from both
  ends (ECMA-262): TAB, LF, VT, FF, CR, SP, NBSP, U+1680, U+2000..U+200A, U+2028, U+2029,
  U+202F, U+205F, U+3000 and U+FEFF.
\<close>

definition isWhiteSpace :: "nat \<Rightarrow> bool" where
  "isWhiteSpace c \<longleftrightarrow>
     c \<in> {9, 10, 11, 12, 13, 32, 160, 5760, 8232, 8233, 8239, 8287, 12288, 65279}
     \<or> (8192 \<le> c \<and> c \<le> 8202)"

definition trim :: "jsstring \<Rightarrow> jsstring" where
  "trim s = rev (dropWhile isWhiteSpace (rev (dropWhile isWhiteSpace s)))"

definition startsWith :: "jsstring \<Rightarrow> jsstring \<Rightarrow> bool" where
  "startsWith s searchString \<longleftrightarrow> prefix searchString s"

text \<open>
  \<open>String.prototype.split\<close> with a string separator: the text is scanned from the left
  for non-overlapping occurrences of the separator; an empty separator splits into single
  code units. \<open>cur\<close> holds the current piece, reversed.
\<close>

fun splitFrom :: "jsstring \<Rightarrow> jsstring \<Rightarrow> jsstring \<Rightarrow> jsstring list" where
  "splitFrom sep cur [] = [rev cur]"
| "splitFrom sep cur (c # cs) =
     (if prefix sep (c # cs)
      then rev cur # splitFrom sep [] (drop (length sep - 1) cs)
      else splitFrom sep (c # cur) cs)"

definition split :: "jsstring \<Rightarrow> jsstring \<Rightarrow> jsstring list" where
  "split s sep = (if sep = [] then map (\<lambda>c. [c]) s else splitFrom sep [] s)"

fun join :: "jsstring list \<Rightarrow> jsstring \<Rightarrow> jsstring" where
  "join [] sep = []"
| "join [p] sep = p"
| "join (p # q # ps) sep = p @ sep @ join (q # ps) sep"

section \<open>The voice session (LiveSession.tsx)\<close>

subsection \<open>Thought stripping\<close>

text \<open>The marker \<open>'\<dots> thought'\<close>: the brain emoji U+1F9E0 is the surrogate pair D83E DDE0.\<close>

definition THOUGHT :: jsstring where
  "THOUGHT = [55358, 56800] @ js '' thought''"

definition CTRL95 :: jsstring where
  "CTRL95 = js ''<ctrl95>''"

definition cleanText :: "jsstring \<Rightarrow> jsstring" where
  "cleanText text =
     (if startsWith text THOUGHT
      then (let parts = split text CTRL95
            in if length parts > 1 then trim (join (drop 1 parts) CTRL95) else [])
      else text)"

subsection \<open>Messages and the transcript updater\<close>

datatype Role = User | Model

text \<open>
  \<open>msg_id\<close> is the value of \<open>Date.now()\<close> whose decimal rendering is the id;
  \<open>isPartial\<close> is optional in the interface, and every message the code creates sets it.
\<close>

record ChatMessage =
  msg_id :: nat
  role :: Role
  msg_text :: jsstring
  isPartial :: bool

text \<open>
  A JavaScript string is truthy when it is present and not empty.
\<close>

definition truthy :: "'a list option \<Rightarrow> bool" where
  "truthy v \<longleftrightarrow> (case v of None \<Rightarrow> False | Some s \<Rightarrow> s \<noteq> [])"

definition str :: "'a list option \<Rightarrow> 'a list" where
  "str v = (case v of None \<Rightarrow> [] | Some s \<Rightarrow> s)"

text \<open>
  The three blocks of the \<open>setMessages\<close> updater. Each reads
  \<open>newMsgs[newMsgs.length - 1]\<close>, which is \<open>undefined\<close> on an empty array. The
  source changes the trailing object in place; the model returns the new sequence, and
  the updater runs once for each message handled.
\<close>

definition appendInput :: "nat \<Rightarrow> jsstring \<Rightarrow> ChatMessage list \<Rightarrow> ChatMessage list" where
  "appendInput now inputTrans newMsgs =
     (if newMsgs \<noteq> [] \<and> role (last newMsgs) = User \<and> isPartial (last newMsgs)
      then butlast newMsgs @ [(last newMsgs)\<lparr>msg_text := msg_text (last newMsgs) @ inputTrans\<rparr>]
      else newMsgs @ [\<lparr>msg_id = now, role = User, msg_text = inputTrans, isPartial = True\<rparr>])"

definition appendOutput :: "nat \<Rightarrow> jsstring \<Rightarrow> ChatMessage list \<Rightarrow> ChatMessage list" where
  "appendOutput now outputTrans newMsgs =
     (if newMsgs \<noteq> [] \<and> role (last newMsgs) = Model \<and> isPartial (last newMsgs)
      then butlast newMsgs @
             [(last newMsgs)\<lparr>msg_text := cleanText (msg_text (last newMsgs) @ outputTrans)\<rparr>]
      else newMsgs @
             [\<lparr>msg_id = now, role = Model, msg_text = cleanText outputTrans, isPartial = True\<rparr>])"

definition finalizeLast :: "ChatMessage list \<Rightarrow> ChatMessage list" where
  "finalizeLast newMsgs =
     (if newMsgs \<noteq> [] then butlast newMsgs @ [(last newMsgs)\<lparr>isPartial := False\<rparr>]
      else newMsgs)"

definition updater :: "nat \<Rightarrow> jsstring option \<Rightarrow> jsstring option \<Rightarrow> bool
    \<Rightarrow> ChatMessage list \<Rightarrow> ChatMessage list" where
  "updater now inputTrans outputTrans turnComplete prev =
     (let m1 = (if truthy inputTrans then appendInput now (str inputTrans) prev else prev);
          m2 = (if truthy outputTrans then appendOutput now (str outputTrans) m1 else m1)
      in if turnComplete then finalizeLast m2 else m2)"

subsection \<open>Session state\<close>

datatype ConnectionState = DISCONNECTED | CONNECTING | CONNECTED | ERROR

text \<open>
  What the session sends on the outbound channel: the noise burst of \<open>triggerModel\<close>
  (its samples are random and play no role) or an encoded microphone frame, identified by
  a number standing for its samples.
\<close>

datatype outbound = WakeStimulus | MicFrame nat

text \<open>
  The two \<open>onaudioprocess\<close> callbacks of the source. The one installed in \<open>onopen\<close>
  tests the constant \<open>isMicOn\<close> of the render whose effect created it, so it carries
  that value; the one of the last effect tests \<open>isMicOnRef.current\<close> when it runs.
\<close>

datatype handler = ClosureHandler bool | RefHandler

text \<open>
  The fields are the component's state variables and refs, followed by what the component
  does to the outside world: \<open>watchdog\<close> is the pending \<open>setTimeout\<close> of the
  thinking effect (milliseconds left), \<open>sent\<close> the calls of \<open>sendRealtimeInput\<close>,
  \<open>started\<close> the calls \<open>source.start(when)\<close> as (source, when, buffer duration),
  \<open>stopped\<close> the sources on which \<open>stop()\<close> was called. \<open>closureMicOn\<close> is the
  value of \<open>isMicOn\<close> in the render whose session effect is live. Buffer sources are
  objects compared by identity; \<open>nextSource\<close> numbers them.

  Clock times and durations have the type \<open>'n\<close>. The handlers compare them, add
  them and store zero, so \<open>'n\<close> is any linearly ordered type with a zero and an
  addition \<open>+\<close> of which no law is assumed: nothing proved below relies on \<open>+\<close>
  being exact, associative or monotone. The doubles the code can hold here (no NaN, the
  two zeros identified) with their rounded addition are such a type, and so are the
  reals, which the examples use with values that doubles add exactly.
\<close>

record 'n session =
  connectionState :: ConnectionState
  isMicOn :: bool
  isThinking :: bool
  messages :: "ChatMessage list"
  turnCount :: nat
  nextStartTime :: 'n
  sources :: "nat set"
  outputContext :: bool
  scriptProcessor :: "handler option"
  isMicOnRef :: bool
  cleanup :: bool
  closureMicOn :: bool
  watchdog :: "nat option"
  sent :: "outbound list"
  started :: "(nat \<times> 'n \<times> 'n) list"
  stopped :: "nat set"
  nextSource :: nat

record LiveServerMessage =
  audioData :: "string option"
  interrupted :: bool
  inputTranscription :: "jsstring option"
  outputTranscription :: "jsstring option"
  turnComplete :: bool

text \<open>
  What the handler reads from outside while it processes one message: the duration of the
  buffer that \<open>decodeAudioData\<close> returns for the message's audio (the decoder is not part
  of the sources at hand), \<open>ctx.currentTime\<close> and \<open>Date.now()\<close>.
\<close>

record 'n Env =
  bufferDuration :: 'n
  currentTime :: 'n
  dateNow :: nat

subsection \<open>The thinking flag and its watchdog\<close>

text \<open>
  The effect with dependency \<open>[isThinking]\<close>: when a commit changes the flag, the cleanup
  of the previous run clears its timer, and the new run sets a timer of 4000 ms if the
  flag is set. A commit that leaves the flag unchanged does not run the effect. State
  updates made in one synchronous stretch of a handler are committed together.
\<close>

definition commitThinking :: "'n session \<Rightarrow> 'n session \<Rightarrow> 'n session" where
  "commitThinking before after =
     (if isThinking after = isThinking before then after
      else after\<lparr>watchdog := (if isThinking after then Some 4000 else None)\<rparr>)"

definition triggerModel :: "'n session \<Rightarrow> 'n session" where
  "triggerModel st = st\<lparr>sent := sent st @ [WakeStimulus], isThinking := True\<rparr>"

text \<open>
  \<open>wake\<close> is \<open>sessionPromiseRef.current?.then(session => triggerModel(session))\<close> as
  the timer after \<open>onopen\<close> and \<open>handleStartInteraction\<close> call it, on a resolved
  session promise; \<open>watchdogFire\<close> is the body of the watchdog's timer, which has then run
  and is no longer pending.
\<close>

definition wake :: "'n session \<Rightarrow> 'n session" where
  "wake st = commitThinking st (triggerModel st)"

definition watchdogFire :: "'n session \<Rightarrow> 'n session" where
  "watchdogFire st = commitThinking st (triggerModel (st\<lparr>watchdog := None\<rparr>))"

definition fireRank :: "'n session \<Rightarrow> nat" where
  "fireRank st = (case watchdog st of None \<Rightarrow> 0 | Some r \<Rightarrow> if isThinking st then 1 else 2)"

text \<open>\<open>advance n\<close>: \<open>n\<close> milliseconds pass with no other event; due timers run.\<close>

function advance :: "nat \<Rightarrow> 'n session \<Rightarrow> 'n session" where
  "advance n st =
     (case watchdog st of
        None \<Rightarrow> st
      | Some r \<Rightarrow> if n < r then st\<lparr>watchdog := Some (r - n)\<rparr>
                  else advance (n - r) (watchdogFire st))"
  by pat_completeness auto
termination
  by (relation "measure (\<lambda>(n, st). fireRank st)")
     (auto simp: fireRank_def watchdogFire_def commitThinking_def triggerModel_def)

subsection \<open>Playback scheduling\<close>

definition enqueue :: "('n :: {linorder, plus}) Env \<Rightarrow> 'n session \<Rightarrow> 'n session" where
  "enqueue env st =
     (let st1 = (if nextStartTime st < currentTime env
                 then st\<lparr>nextStartTime := currentTime env\<rparr> else st);
          source = nextSource st1
      in st1\<lparr>started := started st1 @ [(source, nextStartTime st1, bufferDuration env)],
             nextStartTime := nextStartTime st1 + bufferDuration env,
             sources := insert source (sources st1),
             nextSource := source + 1\<rparr>)"

definition flush :: "('n :: zero) session \<Rightarrow> 'n session" where
  "flush st = st\<lparr>stopped := stopped st \<union> sources st, sources := {}, nextStartTime := 0\<rparr>"

definition onended :: "nat \<Rightarrow> 'n session \<Rightarrow> 'n session" where
  "onended source st = st\<lparr>sources := sources st - {source}\<rparr>"

subsection \<open>The message handler\<close>

text \<open>
  \<open>onmessage\<close>: nothing after teardown. The audio block clears the thinking flag, then
  awaits the decoder, which lets that update commit on its own, then schedules the
  buffer. The rest runs in one stretch: interruption, turn completion, transcript update
  (whose updater sets the thinking flag when user speech is present), then one commit.
\<close>

definition onmessage :: "('n :: {linorder, plus, zero}) Env \<Rightarrow> LiveServerMessage \<Rightarrow> 'n session
    \<Rightarrow> 'n session" where
  "onmessage env msg st =
     (if cleanup st then st
      else
        (let s1 = (if truthy (audioData msg) \<and> outputContext st
                   then enqueue env (commitThinking st (st\<lparr>isThinking := False\<rparr>))
                   else st);
             s2 = (if interrupted msg then (flush s1)\<lparr>isThinking := False\<rparr> else s1);
             inputTrans = inputTranscription msg;
             outputTrans = outputTranscription msg;
             s3 = (if turnComplete msg
                   then s2\<lparr>isThinking := False, turnCount := turnCount s2 + 1\<rparr>
                   else s2);
             s4 = (if truthy inputTrans \<or> truthy outputTrans
                   then s3\<lparr>messages := updater (dateNow env) inputTrans outputTrans
                                            (turnComplete msg) (messages s3),
                           isThinking := (if truthy inputTrans then True else isThinking s3)\<rparr>
                   else s3)
         in commitThinking s1 s4))"

subsection \<open>Microphone capture\<close>

text \<open>
  \<open>initial\<close> is the component after its first render: the initial values of
  \<open>useState\<close> and \<open>useRef\<close>, nothing sent, no timer. \<open>mountEffects\<close> runs the effects
  of that render in the order of their declaration: the watchdog effect (which sets a
  timer only if the flag is set), the session effect (creates the audio contexts and
  opens the connection; its callbacks close over this render's \<open>isMicOn\<close>), the effect
  copying \<open>isMicOn\<close> to its ref, and the effect with no dependencies that replaces the
  processor's callback if the processor exists.
\<close>

definition initial :: "('n :: zero) session" where
  "initial =
     \<lparr>connectionState = CONNECTING, isMicOn = True, isThinking = False, messages = [],
      turnCount = 0, nextStartTime = 0, sources = {}, outputContext = False,
      scriptProcessor = None, isMicOnRef = True, cleanup = False, closureMicOn = True,
      watchdog = None, sent = [], started = [], stopped = {}, nextSource = 0\<rparr>"

definition mountEffects :: "'n session \<Rightarrow> 'n session" where
  "mountEffects st =
     (let e1 = (if isThinking st then st\<lparr>watchdog := Some 4000\<rparr> else st);
          e2 = e1\<lparr>connectionState := CONNECTING, outputContext := True, cleanup := False,
                   closureMicOn := isMicOn e1\<rparr>;
          e3 = e2\<lparr>isMicOnRef := isMicOn e2\<rparr>
      in (case scriptProcessor e3 of
            None \<Rightarrow> e3
          | Some h \<Rightarrow> e3\<lparr>scriptProcessor := Some RefHandler\<rparr>))"

text \<open>
  \<open>onopen\<close>: after the microphone is granted the processor is created and its callback
  is the closure of the session effect; a refused microphone sets the ERROR state.
\<close>

definition onopen :: "bool \<Rightarrow> 'n session \<Rightarrow> 'n session" where
  "onopen micGranted st =
     (if cleanup st then st
      else if micGranted
      then st\<lparr>connectionState := CONNECTED,
              scriptProcessor := Some (ClosureHandler (closureMicOn st))\<rparr>
      else st\<lparr>connectionState := ERROR\<rparr>)"

text \<open>
  The mute button: \<open>setIsMicOn(!isMicOn)\<close>; the render that follows runs the effect
  with dependency \<open>[isMicOn]\<close>, and no other (the session effect's dependencies are
  props and the character constant looked up from the step type).
\<close>

definition toggleMic :: "'n session \<Rightarrow> 'n session" where
  "toggleMic st = (let v = (\<not> isMicOn st) in st\<lparr>isMicOn := v, isMicOnRef := v\<rparr>)"

definition onaudioprocess :: "nat \<Rightarrow> 'n session \<Rightarrow> 'n session" where
  "onaudioprocess frame st =
     (case scriptProcessor st of
        None \<Rightarrow> st
      | Some (ClosureHandler captured) \<Rightarrow>
          if \<not> captured then st else st\<lparr>sent := sent st @ [MicFrame frame]\<rparr>
      | Some RefHandler \<Rightarrow>
          if \<not> isMicOnRef st then st else st\<lparr>sent := sent st @ [MicFrame frame]\<rparr>)"

subsection \<open>Runs and example inputs\<close>

text \<open>Messages handled one after the other, each with its readings of the outside.\<close>

fun run :: "(('n :: {linorder, plus, zero}) Env \<times> LiveServerMessage) list \<Rightarrow> 'n session
    \<Rightarrow> 'n session" where
  "run [] st = st"
| "run (em # rest) st = run rest (onmessage (fst em) (snd em) st)"

definition emptyMsg :: LiveServerMessage where
  "emptyMsg = \<lparr>audioData = None, interrupted = False, inputTranscription = None,
               outputTranscription = None, turnComplete = False\<rparr>"

definition env0 :: "real Env" where
  "env0 = \<lparr>bufferDuration = 1, currentTime = 0, dateNow = 0\<rparr>"

definition audioMsg :: LiveServerMessage where
  "audioMsg = emptyMsg\<lparr>audioData := Some ''AAAA''\<rparr>"

text \<open>The messages of a run for which the audio block of the handler runs.\<close>

definition carriesAudio :: "'n Env \<times> LiveServerMessage \<Rightarrow> bool" where
  "carriesAudio em \<longleftrightarrow> truthy (audioData (snd em))"

definition twoTurns :: "real session" where
  "twoTurns = run [(env0, emptyMsg\<lparr>inputTranscription := Some (js ''Bom'')\<rparr>),
                   (env0, emptyMsg\<lparr>inputTranscription := Some (js '' dia'')\<rparr>),
                   (env0\<lparr>dateNow := 1\<rparr>, emptyMsg\<lparr>outputTranscription := Some (js ''Oi'')\<rparr>)]
                  (mountEffects initial)"

definition exampleStep1 :: Step where
  "exampleStep1 = \<lparr>step_id = ''step-1'', step_title = ''Vocabulario'',
                    step_type = vocabulary, step_order = 1\<rparr>"

definition exampleStep6 :: Step where
  "exampleStep6 = \<lparr>step_id = ''step-6'', step_title = ''Mini-Teste'',
                    step_type = challenge, step_order = 6\<rparr>"

definition exampleSubject :: Subject where
  "exampleSubject = \<lparr>subject_id = ''a1-intro'', subject_title = ''Apresentacoes Pessoais'',
                      subject_description = ''Introduce yourself'', subject_icon = ''wave'',
                      subject_color = ''bg-green-500'',
                      subject_steps = [exampleStep1, exampleStep6]\<rparr>"

definition exampleLevel :: Level where
  "exampleLevel = \<lparr>level_id = A1, level_title = ''A1 - Beginner'',
                    level_subjects = [exampleSubject]\<rparr>"

definition exampleUser :: "string list \<Rightarrow> UserProfile" where
  "exampleUser done =
     \<lparr>user_name = ''Ana'',
      nativeLanguage = \<lparr>lang_code = ''en-US'', lang_name = ''English'', lang_flag = ''US''\<rparr>,
      user_mode = assisted, currentLevel = A1, completedSubjects = [],
      completedSteps = done\<rparr>"

section \<open>Properties of the progress bookkeeping\<close>

text \<open>
  Claim C9. The session-completion handler only appends to the progress lists and adds
  no duplicate: with no profile or no active session it changes nothing; otherwise the
  composite id \<open>subjectId-stepId\<close> is appended to \<open>completedSteps\<close> exactly when it is
  not yet a member, the subject's id is appended to \<open>completedSubjects\<close> exactly when
  the step's order is 6 and the id is not yet a member, both old lists are prefixes of
  the new ones (nothing is removed), and lists without duplicates stay so.
\<close>

theorem handleSessionComplete_append_only:
  "(userProfile st = None \<or> activeSession st = None \<longrightarrow> handleSessionComplete st = st) \<and>
   (\<forall>u a. userProfile st = Some u \<and> activeSession st = Some a \<longrightarrow>
      (\<exists>u'. userProfile (handleSessionComplete st) = Some u' \<and>
         completedSteps u' =
           (if compositeId (subject_id (as_subject a)) (step_id (as_step a)) \<in> set (completedSteps u)
            then completedSteps u
            else completedSteps u @ [compositeId (subject_id (as_subject a)) (step_id (as_step a))]) \<and>
         completedSubjects u' =
           (if step_order (as_step a) = 6 \<and> subject_id (as_subject a) \<notin> set (completedSubjects u)
            then completedSubjects u @ [subject_id (as_subject a)]
            else completedSubjects u) \<and>
         prefix (completedSteps u) (completedSteps u') \<and>
         prefix (completedSubjects u) (completedSubjects u') \<and>
         (distinct (completedSteps u) \<longrightarrow> distinct (completedSteps u')) \<and>
         (distinct (completedSubjects u) \<longrightarrow> distinct (completedSubjects u'))))"
  by (auto simp: handleSessionComplete_def Let_def split: option.splits)

theorem handleSessionComplete_append_only_witness:
  "\<exists>u'. userProfile (handleSessionComplete
            \<lparr>userProfile = Some (exampleUser [''a1-intro-step-1'']),
             activeSession = Some \<lparr>as_level = exampleLevel, as_subject = exampleSubject,
                                    as_step = exampleStep6\<rparr>\<rparr>) = Some u' \<and>
        completedSteps u' = [''a1-intro-step-1'', ''a1-intro-step-6''] \<and>
        completedSubjects u' = [''a1-intro'']"
  using handleSessionComplete_append_only
          [of "\<lparr>userProfile = Some (exampleUser [''a1-intro-step-1'']),
                activeSession = Some \<lparr>as_level = exampleLevel, as_subject = exampleSubject,
                                       as_step = exampleStep6\<rparr>\<rparr>"]
  by (auto simp add: exampleUser_def exampleSubject_def exampleStep6_def compositeId_def)

section \<open>Properties of the unlock rule\<close>

lemma pushStep_inv:
  "fst acc = n + length (snd acc) \<Longrightarrow> map globalIndex (snd acc) = [n ..< fst acc] \<Longrightarrow>
   fst (foldl (pushStep level sIdx subject) acc ps)
     = n + length (snd (foldl (pushStep level sIdx subject) acc ps))
   \<and> map globalIndex (snd (foldl (pushStep level sIdx subject) acc ps))
     = [n ..< fst (foldl (pushStep level sIdx subject) acc ps)]"
proof (induction ps arbitrary: acc)
  case Nil
  then show ?case by simp
next
  case (Cons p ps)
  obtain g l where acc: "acc = (g, l)" by (cases acc)
  obtain k s where p: "p = (k, s)" by (cases p)
  have a: "fst (pushStep level sIdx subject acc p)
             = n + length (snd (pushStep level sIdx subject acc p))"
    using Cons.prems(1) by (simp add: acc p pushStep_def)
  have b: "map globalIndex (snd (pushStep level sIdx subject acc p))
             = [n ..< fst (pushStep level sIdx subject acc p)]"
    using Cons.prems by (simp add: acc p pushStep_def)
  show ?case using Cons.IH [OF a b] by simp
qed

lemma pushSubject_inv:
  "fst acc = n + length (snd acc) \<Longrightarrow> map globalIndex (snd acc) = [n ..< fst acc] \<Longrightarrow>
   fst (foldl (pushSubject level) acc ps) = n + length (snd (foldl (pushSubject level) acc ps))
   \<and> map globalIndex (snd (foldl (pushSubject level) acc ps))
     = [n ..< fst (foldl (pushSubject level) acc ps)]"
proof (induction ps arbitrary: acc)
  case Nil
  then show ?case by simp
next
  case (Cons p ps)
  obtain k s where p: "p = (k, s)" by (cases p)
  have ab: "fst (pushSubject level acc p) = n + length (snd (pushSubject level acc p))
     \<and> map globalIndex (snd (pushSubject level acc p)) = [n ..< fst (pushSubject level acc p)]"
    unfolding p pushSubject_def prod.case using Cons.prems by (rule pushStep_inv)
  show ?case using Cons.IH [of "pushSubject level acc p"] ab by simp
qed

lemma pushLevel_inv:
  "fst acc = n + length (snd acc) \<Longrightarrow> map globalIndex (snd acc) = [n ..< fst acc] \<Longrightarrow>
   fst (foldl pushLevel acc ls) = n + length (snd (foldl pushLevel acc ls))
   \<and> map globalIndex (snd (foldl pushLevel acc ls)) = [n ..< fst (foldl pushLevel acc ls)]"
proof (induction ls arbitrary: acc)
  case Nil
  then show ?case by simp
next
  case (Cons l ls)
  have ab: "fst (pushLevel acc l) = n + length (snd (pushLevel acc l))
     \<and> map globalIndex (snd (pushLevel acc l)) = [n ..< fst (pushLevel acc l)]"
    unfolding pushLevel_def using Cons.prems by (rule pushSubject_inv)
  show ?case using Cons.IH [of "pushLevel acc l"] ab by simp
qed

lemma allSteps_globalIndex:
  "map globalIndex (allSteps curriculum) = [0 ..< length (allSteps curriculum)]"
  using pushLevel_inv [of "(0, [])" 0 curriculum] by (simp add: allSteps_def)

lemma allSteps_nth_globalIndex:
  "i < length (allSteps curriculum) \<Longrightarrow> globalIndex (allSteps curriculum ! i) = i"
proof -
  assume i: "i < length (allSteps curriculum)"
  have "globalIndex (allSteps curriculum ! i) = map globalIndex (allSteps curriculum) ! i"
    using i by simp
  also have "\<dots> = [0 ..< length (allSteps curriculum)] ! i"
    by (simp only: allSteps_globalIndex)
  finally show ?thesis using i by simp
qed

lemma allSteps_example:
  "map (\<lambda>it. (subject_id (item_subject it), step_id (item_step it), globalIndex it))
       (allSteps [exampleLevel])
   = [(''a1-intro'', ''step-1'', 0), (''a1-intro'', ''step-6'', 1)]"
  by (simp add: allSteps_def exampleLevel_def exampleSubject_def exampleStep1_def
        exampleStep6_def pushLevel_def pushSubject_def pushStep_def enumerate_eq_zip upt_rec)

text \<open>
  Claim C10. In the lesson map the step at global index 0 is always unlocked, and for
  every index \<open>i > 0\<close> of a step of the flattened curriculum (whose item carries the
  global index \<open>i\<close>), the step is unlocked if and only if the composite id
  \<open>subjectId-stepId\<close> of the item at index \<open>i - 1\<close> is in the user's \<open>completedSteps\<close>.
\<close>

theorem isUnlocked_rule:
  "isUnlocked user curriculum 0 = Inr True \<and>
   (\<forall>i. 0 < i \<and> i < length (allSteps curriculum) \<longrightarrow>
      globalIndex (allSteps curriculum ! i) = i \<and>
      globalIndex (allSteps curriculum ! (i - 1)) = i - 1 \<and>
      isUnlocked user curriculum i =
        Inr (compositeId (subject_id (item_subject (allSteps curriculum ! (i - 1))))
                         (step_id (item_step (allSteps curriculum ! (i - 1))))
             \<in> set (completedSteps user)))"
  by (auto simp add: isUnlocked_def isCompleted_def allSteps_nth_globalIndex Let_def)

theorem isUnlocked_rule_witness:
  "isUnlocked (exampleUser [''a1-intro-step-1'']) [exampleLevel] 1 = Inr True \<and>
   isUnlocked (exampleUser []) [exampleLevel] 1 = Inr False \<and>
   isUnlocked (exampleUser []) [exampleLevel] 0 = Inr True"
proof -
  have len: "length (allSteps [exampleLevel]) = 2"
    using arg_cong [OF allSteps_example, of length] by simp
  have prev: "subject_id (item_subject (allSteps [exampleLevel] ! 0)) = ''a1-intro''
              \<and> step_id (item_step (allSteps [exampleLevel] ! 0)) = ''step-1''"
    using arg_cong [OF allSteps_example, of "\<lambda>l. l ! 0"] len by (simp add: nth_map)
  show ?thesis
    using isUnlocked_rule [of "exampleUser [''a1-intro-step-1'']" "[exampleLevel]"]
          isUnlocked_rule [of "exampleUser []" "[exampleLevel]"] len prev
    by (simp add: exampleUser_def compositeId_def)
qed

section \<open>Properties of the message handler\<close>

lemma commitThinking_fields [simp]:
  "cleanup (commitThinking b a) = cleanup a"
  "outputContext (commitThinking b a) = outputContext a"
  "turnCount (commitThinking b a) = turnCount a"
  "messages (commitThinking b a) = messages a"
  "nextStartTime (commitThinking b a) = nextStartTime a"
  "started (commitThinking b a) = started a"
  "sources (commitThinking b a) = sources a"
  "stopped (commitThinking b a) = stopped a"
  "nextSource (commitThinking b a) = nextSource a"
  "sent (commitThinking b a) = sent a"
  "isThinking (commitThinking b a) = isThinking a"
  by (simp_all add: commitThinking_def)

lemma enqueue_fields [simp]:
  "cleanup (enqueue env st) = cleanup st"
  "outputContext (enqueue env st) = outputContext st"
  "turnCount (enqueue env st) = turnCount st"
  "messages (enqueue env st) = messages st"
  "sent (enqueue env st) = sent st"
  "isThinking (enqueue env st) = isThinking st"
  "watchdog (enqueue env st) = watchdog st"
  "stopped (enqueue env st) = stopped st"
  "nextSource (enqueue env st) = nextSource st + 1"
  "sources (enqueue env st) = insert (nextSource st) (sources st)"
  "nextStartTime (enqueue env st) = max (nextStartTime st) (currentTime env) + bufferDuration env"
  "started (enqueue env st) =
     started st @ [(nextSource st, max (nextStartTime st) (currentTime env), bufferDuration env)]"
  by (auto simp add: enqueue_def Let_def max_def)

lemma flush_fields [simp]:
  "cleanup (flush st) = cleanup st"
  "outputContext (flush st) = outputContext st"
  "turnCount (flush st) = turnCount st"
  "messages (flush st) = messages st"
  "sent (flush st) = sent st"
  "isThinking (flush st) = isThinking st"
  "watchdog (flush st) = watchdog st"
  "stopped (flush st) = stopped st \<union> sources st"
  "nextSource (flush st) = nextSource st"
  "sources (flush st) = {}"
  "nextStartTime (flush st) = 0"
  "started (flush st) = started st"
  by (simp_all add: flush_def)

lemma onmessage_cleanup: "cleanup (onmessage env msg st) = cleanup st"
  by (simp add: onmessage_def Let_def)

lemma onmessage_outputContext: "outputContext (onmessage env msg st) = outputContext st"
  by (simp add: onmessage_def Let_def)

lemma onmessage_sent: "sent (onmessage env msg st) = sent st"
  by (simp add: onmessage_def Let_def)

lemma onmessage_turnCount:
  "turnCount (onmessage env msg st) =
     (if \<not> cleanup st \<and> turnComplete msg then turnCount st + 1 else turnCount st)"
  by (simp add: onmessage_def Let_def)

lemma onmessage_messages:
  "messages (onmessage env msg st) =
     (if \<not> cleanup st \<and> (truthy (inputTranscription msg) \<or> truthy (outputTranscription msg))
      then updater (dateNow env) (inputTranscription msg) (outputTranscription msg)
             (turnComplete msg) (messages st)
      else messages st)"
  by (simp add: onmessage_def Let_def)

lemma onmessage_nextStartTime:
  "\<not> cleanup st \<Longrightarrow> nextStartTime (onmessage env msg st) =
     (if interrupted msg then 0
      else if truthy (audioData msg) \<and> outputContext st
      then max (nextStartTime st) (currentTime env) + bufferDuration env
      else nextStartTime st)"
  by (simp add: onmessage_def Let_def)

lemma onmessage_started:
  "\<not> cleanup st \<Longrightarrow> started (onmessage env msg st) =
     (if truthy (audioData msg) \<and> outputContext st
      then started st @ [(nextSource st, max (nextStartTime st) (currentTime env),
                          bufferDuration env)]
      else started st)"
  by (simp add: onmessage_def Let_def)

lemma onmessage_sources:
  "\<not> cleanup st \<Longrightarrow> sources (onmessage env msg st) =
     (if interrupted msg then {}
      else if truthy (audioData msg) \<and> outputContext st
      then insert (nextSource st) (sources st) else sources st)"
  by (simp add: onmessage_def Let_def)

lemma onmessage_stopped:
  "\<not> cleanup st \<Longrightarrow> interrupted msg \<Longrightarrow> sources st \<subseteq> stopped (onmessage env msg st)"
  by (auto simp add: onmessage_def Let_def)

lemma onmessage_nextSource:
  "\<not> cleanup st \<Longrightarrow> nextSource (onmessage env msg st) =
     (if truthy (audioData msg) \<and> outputContext st then nextSource st + 1 else nextSource st)"
  by (simp add: onmessage_def Let_def)

lemma onmessage_isThinking:
  "\<not> cleanup st \<Longrightarrow> isThinking (onmessage env msg st) =
     (if truthy (inputTranscription msg) then True
      else if (truthy (audioData msg) \<and> outputContext st) \<or> interrupted msg \<or> turnComplete msg
      then False else isThinking st)"
  by (auto simp add: onmessage_def Let_def)

lemma run_cleanup: "cleanup (run ems st) = cleanup st"
  by (induction ems arbitrary: st) (simp_all add: onmessage_cleanup)

lemma run_outputContext: "outputContext (run ems st) = outputContext st"
  by (induction ems arbitrary: st) (simp_all add: onmessage_outputContext)

lemma run_turnCount:
  "\<not> cleanup st \<Longrightarrow>
   turnCount (run ems st) = turnCount st + length (filter (\<lambda>em. turnComplete (snd em)) ems)"
  by (induction ems arbitrary: st) (simp_all add: onmessage_cleanup onmessage_turnCount)

lemma onmessage_started_prefix: "prefix (started st) (started (onmessage env msg st))"
  by (simp add: onmessage_def Let_def)

lemma run_started_prefix: "prefix (started st) (started (run ems st))"
proof (induction ems arbitrary: st)
  case Nil
  show ?case by simp
next
  case (Cons em ems)
  have "prefix (started st) (started (onmessage (fst em) (snd em) st))"
    by (rule onmessage_started_prefix)
  also have "prefix \<dots> (started (run ems (onmessage (fst em) (snd em) st)))"
    by (rule Cons.IH)
  finally show ?case by simp
qed

lemma prefix_nth: "prefix xs ys \<Longrightarrow> i < length xs \<Longrightarrow> ys ! i = xs ! i"
  by (auto simp: prefix_def nth_append)

lemma ready_fields:
  "\<not> cleanup (mountEffects initial)" "outputContext (mountEffects initial)"
  "turnCount (mountEffects initial) = 0" "messages (mountEffects initial) = []"
  "\<not> isThinking (mountEffects initial)" "watchdog (mountEffects initial) = None"
  "sent (mountEffects initial) = []" "started (mountEffects initial) = []"
  "sources (mountEffects initial) = {}" "nextStartTime (mountEffects initial) = 0"
  "nextSource (mountEffects initial) = 0" "stopped (mountEffects initial) = {}"
  by (simp_all add: mountEffects_def initial_def)

lemma emptyMsg_fields [simp]:
  "audioData emptyMsg = None" "\<not> interrupted emptyMsg" "inputTranscription emptyMsg = None"
  "outputTranscription emptyMsg = None" "\<not> turnComplete emptyMsg"
  by (simp_all add: emptyMsg_def)

lemma env0_fields [simp]:
  "bufferDuration env0 = 1" "currentTime env0 = 0" "dateNow env0 = 0"
  by (simp_all add: env0_def)

lemma truthy_simps [simp]:
  "\<not> truthy None" "truthy (Some (c # cs))" "\<not> truthy (Some [])" "truthy (Some (js (d # ds)))"
  by (simp_all add: truthy_def js_def)

lemma str_simps [simp]: "str None = []" "str (Some s) = s"
  by (simp_all add: str_def)

section \<open>The completion gate\<close>

text \<open>
  Claim C7. The completion predicate is false exactly for turn counts 0, 1 and 2 and
  true exactly from 3 on; the button is disabled, and has no click handler, whenever the
  predicate is false; and in a live session that starts with a turn count of 0 the
  predicate holds after a run of messages exactly when at least three of them carried
  the turn-complete signal (nothing resets the counter).
\<close>

theorem canComplete_gate:
  "(canComplete n \<longleftrightarrow> n \<notin> {0, 1, 2}) \<and> (canComplete n \<longleftrightarrow> 3 \<le> n) \<and>
   disabled (completeButton n) = (\<not> canComplete n) \<and>
   onClick (completeButton n) = (if canComplete n then Some OnComplete else None) \<and>
   (\<not> cleanup st \<and> turnCount st = 0 \<longrightarrow>
      canComplete (turnCount (run ems st)) =
        (3 \<le> length (filter (\<lambda>em. turnComplete (snd em)) ems)))"
  by (auto simp: canComplete_def completeButton_def run_turnCount)

theorem canComplete_gate_witness:
  "\<not> canComplete 2 \<and> canComplete 3 \<and> disabled (completeButton 2) \<and>
   onClick (completeButton 2) = None \<and> onClick (completeButton 3) = Some OnComplete \<and>
   canComplete (turnCount (run [(env0, emptyMsg\<lparr>turnComplete := True\<rparr>),
                                (env0, emptyMsg\<lparr>turnComplete := True\<rparr>),
                                (env0, emptyMsg\<lparr>turnComplete := True\<rparr>)]
                               (mountEffects initial)))"
  using canComplete_gate [of 2 "mountEffects initial"
          "[(env0, emptyMsg\<lparr>turnComplete := True\<rparr>), (env0, emptyMsg\<lparr>turnComplete := True\<rparr>),
            (env0, emptyMsg\<lparr>turnComplete := True\<rparr>)]"]
        canComplete_gate [of 3 "mountEffects initial" "[]"]
  by (simp add: ready_fields emptyMsg_def)

section \<open>Interruption\<close>

text \<open>
  Claim C6. When a live session handles a message with the interrupted flag, every
  source that was active is stopped, the set of active sources becomes empty and
  \<open>nextStartTime\<close> is 0; the next audio message is then scheduled to start at the
  clock time read while handling it (the audio clock is never negative).
\<close>

theorem interrupted_flush:
  assumes "\<not> cleanup st" and "interrupted msg"
  shows "sources (onmessage env msg st) = {} \<and>
         sources st \<subseteq> stopped (onmessage env msg st) \<and>
         nextStartTime (onmessage env msg st) = 0 \<and>
         (outputContext st \<and> truthy (audioData msg') \<and> 0 \<le> currentTime env' \<longrightarrow>
            started (onmessage env' msg' (onmessage env msg st)) =
              started (onmessage env msg st) @
                [(nextSource (onmessage env msg st), currentTime env', bufferDuration env')])"
  using assms
  by (simp add: onmessage_sources onmessage_stopped onmessage_nextStartTime onmessage_started
        onmessage_cleanup onmessage_outputContext)

lemma three_playing:
  "sources (run [(env0, audioMsg), (env0, audioMsg), (env0, audioMsg)] (mountEffects initial))
     = {0, 1, 2}"
  by (simp add: onmessage_sources onmessage_cleanup onmessage_outputContext onmessage_nextSource
        ready_fields audioMsg_def emptyMsg_def truthy_def insert_commute numeral_2_eq_2)

theorem interrupted_flush_witness:
  "sources (run [(env0, audioMsg), (env0, audioMsg), (env0, audioMsg)] (mountEffects initial))
     = {0, 1, 2} \<and>
   sources (onmessage env0 (emptyMsg\<lparr>interrupted := True\<rparr>)
     (run [(env0, audioMsg), (env0, audioMsg), (env0, audioMsg)] (mountEffects initial))) = {} \<and>
   {0, 1, 2} \<subseteq> stopped (onmessage env0 (emptyMsg\<lparr>interrupted := True\<rparr>)
     (run [(env0, audioMsg), (env0, audioMsg), (env0, audioMsg)] (mountEffects initial))) \<and>
   started (onmessage (env0\<lparr>currentTime := 7\<rparr>) audioMsg
     (onmessage env0 (emptyMsg\<lparr>interrupted := True\<rparr>)
       (run [(env0, audioMsg), (env0, audioMsg), (env0, audioMsg)] (mountEffects initial)))) ! 3
     = (3, 7, 1)"
  using interrupted_flush [of "run [(env0, audioMsg), (env0, audioMsg), (env0, audioMsg)] (mountEffects initial)"
          "emptyMsg\<lparr>interrupted := True\<rparr>" env0 audioMsg "env0\<lparr>currentTime := 7\<rparr>"]
        three_playing
  by (simp add: run_cleanup run_outputContext ready_fields emptyMsg_def audioMsg_def truthy_def
        env0_def onmessage_started onmessage_cleanup onmessage_outputContext onmessage_nextSource)


section \<open>Playback scheduling\<close>

lemma audio_step:
  assumes "\<not> cleanup st" "outputContext st" "truthy (audioData msg)" "\<not> interrupted msg"
  shows "started (onmessage env msg st) =
           started st @ [(nextSource st, max (nextStartTime st) (currentTime env), bufferDuration env)]"
    and "nextStartTime (onmessage env msg st) =
           max (nextStartTime st) (currentTime env) + bufferDuration env"
  using assms by (simp_all add: onmessage_started onmessage_nextStartTime)

lemma quiet_step:
  assumes "\<not> cleanup st" "\<not> truthy (audioData msg)" "\<not> interrupted msg"
  shows "started (onmessage env msg st) = started st"
    and "nextStartTime (onmessage env msg st) = nextStartTime st"
  using assms by (simp_all add: onmessage_started onmessage_nextStartTime)

lemma run_count:
  "\<not> cleanup st \<Longrightarrow> outputContext st \<Longrightarrow>
   length (started (run ems st)) = length (started st) + length (filter carriesAudio ems)"
proof (induction ems arbitrary: st)
  case Nil
  show ?case by simp
next
  case (Cons em ems)
  let ?st1 = "onmessage (fst em) (snd em) st"
  have live1: "\<not> cleanup ?st1" "outputContext ?st1"
    using Cons.prems by (simp_all add: onmessage_cleanup onmessage_outputContext)
  have "length (started ?st1) = length (started st) + (if carriesAudio em then 1 else 0)"
    using Cons.prems by (simp add: onmessage_started carriesAudio_def)
  with Cons.IH [OF live1] show ?case by simp
qed

lemma first_audio:
  "\<not> cleanup st \<Longrightarrow> outputContext st \<Longrightarrow> \<forall>em \<in> set ems. \<not> interrupted (snd em) \<Longrightarrow>
   filter carriesAudio ems = a # as \<Longrightarrow>
   \<exists>s. started (run ems st) ! length (started st)
         = (s, max (nextStartTime st) (currentTime (fst a)), bufferDuration (fst a))"
proof (induction ems arbitrary: st)
  case Nil
  then show ?case by simp
next
  case (Cons em ems)
  let ?st1 = "onmessage (fst em) (snd em) st"
  have live1: "\<not> cleanup ?st1" "outputContext ?st1"
    using Cons.prems(1,2) by (simp_all add: onmessage_cleanup onmessage_outputContext)
  have ni: "\<not> interrupted (snd em)" and rest: "\<forall>em \<in> set ems. \<not> interrupted (snd em)"
    using Cons.prems(3) by simp_all
  show ?case
  proof (cases "carriesAudio em")
    case True
    then have a: "a = em" using Cons.prems(4) by simp
    have t: "truthy (audioData (snd em))" using True by (simp add: carriesAudio_def)
    have s1: "started ?st1 = started st @
        [(nextSource st, max (nextStartTime st) (currentTime (fst em)), bufferDuration (fst em))]"
      using audio_step(1) [OF Cons.prems(1,2) t ni] .
    have "prefix (started ?st1) (started (run ems ?st1))"
      by (rule run_started_prefix)
    then have "started (run ems ?st1) ! length (started st) = started ?st1 ! length (started st)"
      by (rule prefix_nth) (simp add: s1)
    then show ?thesis by (simp add: s1 a)
  next
    case False
    then have f: "filter carriesAudio ems = a # as" using Cons.prems(4) by simp
    have q: "\<not> truthy (audioData (snd em))" using False by (simp add: carriesAudio_def)
    have same: "started ?st1 = started st" "nextStartTime ?st1 = nextStartTime st"
      using quiet_step [OF Cons.prems(1) q ni] by simp_all
    from Cons.IH [OF live1 rest f] show ?thesis by (simp add: same)
  qed
qed

lemma entry_at:
  "\<not> cleanup st \<Longrightarrow> outputContext st \<Longrightarrow> \<forall>em \<in> set ems. \<not> interrupted (snd em) \<Longrightarrow>
   i < length (filter carriesAudio ems) \<Longrightarrow>
   snd (snd (started (run ems st) ! (length (started st) + i)))
     = bufferDuration (fst (filter carriesAudio ems ! i)) \<and>
   fst (snd (started (run ems st) ! (length (started st) + i)))
     = max (if i = 0 then nextStartTime st
            else fst (snd (started (run ems st) ! (length (started st) + i - 1)))
                 + snd (snd (started (run ems st) ! (length (started st) + i - 1))))
           (currentTime (fst (filter carriesAudio ems ! i)))"
proof (induction ems arbitrary: st i)
  case Nil
  then show ?case by simp
next
  case (Cons em ems)
  let ?st1 = "onmessage (fst em) (snd em) st"
  have live1: "\<not> cleanup ?st1" "outputContext ?st1"
    using Cons.prems(1,2) by (simp_all add: onmessage_cleanup onmessage_outputContext)
  have ni: "\<not> interrupted (snd em)" and rest: "\<forall>em \<in> set ems. \<not> interrupted (snd em)"
    using Cons.prems(3) by simp_all
  show ?case
  proof (cases "carriesAudio em")
    case False
    then have i: "i < length (filter carriesAudio ems)" using Cons.prems(4) by simp
    have q: "\<not> truthy (audioData (snd em))" using False by (simp add: carriesAudio_def)
    have same: "started ?st1 = started st" "nextStartTime ?st1 = nextStartTime st"
      using quiet_step [OF Cons.prems(1) q ni] by simp_all
    from Cons.IH [OF live1 rest i] show ?thesis using False by (simp add: same)
  next
    case True
    have t: "truthy (audioData (snd em))" using True by (simp add: carriesAudio_def)
    have f: "filter carriesAudio (em # ems) = em # filter carriesAudio ems"
      using True by simp
    from first_audio [OF Cons.prems(1,2,3) f]
    obtain s where e0: "started (run (em # ems) st) ! length (started st)
        = (s, max (nextStartTime st) (currentTime (fst em)), bufferDuration (fst em))"
      by blast
    have len1: "length (started ?st1) = Suc (length (started st))"
      and n1: "nextStartTime ?st1
                 = max (nextStartTime st) (currentTime (fst em)) + bufferDuration (fst em)"
      using audio_step [OF Cons.prems(1,2) t ni] by simp_all
    show ?thesis
    proof (cases i)
      case 0
      then show ?thesis using e0 True by simp
    next
      case (Suc j)
      then have j: "j < length (filter carriesAudio ems)" using Cons.prems(4) True by simp
      from Cons.IH [OF live1 rest j] show ?thesis
        using e0 True by (cases j) (simp_all add: Suc len1 n1)
    qed
  qed
qed

lemma run_cursor:
  "\<not> cleanup st \<Longrightarrow> outputContext st \<Longrightarrow> \<forall>em \<in> set ems. \<not> interrupted (snd em) \<Longrightarrow>
   (filter carriesAudio ems = [] \<longrightarrow>
      nextStartTime (run ems st) = nextStartTime st \<and> started (run ems st) = started st) \<and>
   (filter carriesAudio ems \<noteq> [] \<longrightarrow>
      started (run ems st) \<noteq> [] \<and>
      nextStartTime (run ems st)
        = fst (snd (last (started (run ems st)))) + snd (snd (last (started (run ems st)))))"
proof (induction ems arbitrary: st)
  case Nil
  show ?case by simp
next
  case (Cons em ems)
  let ?st1 = "onmessage (fst em) (snd em) st"
  have live1: "\<not> cleanup ?st1" "outputContext ?st1"
    using Cons.prems(1,2) by (simp_all add: onmessage_cleanup onmessage_outputContext)
  have ni: "\<not> interrupted (snd em)" and rest: "\<forall>em \<in> set ems. \<not> interrupted (snd em)"
    using Cons.prems(3) by simp_all
  note IH = Cons.IH [OF live1 rest]
  show ?case
  proof (cases "carriesAudio em")
    case False
    have q: "\<not> truthy (audioData (snd em))" using False by (simp add: carriesAudio_def)
    have same: "started ?st1 = started st" "nextStartTime ?st1 = nextStartTime st"
      using quiet_step [OF Cons.prems(1) q ni] by simp_all
    show ?thesis using IH False by (simp add: same)
  next
    case True
    have t: "truthy (audioData (snd em))" using True by (simp add: carriesAudio_def)
    have s1: "started ?st1 = started st @
        [(nextSource st, max (nextStartTime st) (currentTime (fst em)), bufferDuration (fst em))]"
      and n1: "nextStartTime ?st1
                 = max (nextStartTime st) (currentTime (fst em)) + bufferDuration (fst em)"
      using audio_step [OF Cons.prems(1,2) t ni] by simp_all
    show ?thesis
    proof (cases "filter carriesAudio ems = []")
      case True
      then show ?thesis using IH \<open>carriesAudio em\<close> by (simp add: s1 n1)
    next
      case False
      then show ?thesis using IH \<open>carriesAudio em\<close> by simp
    qed
  qed
qed

text \<open>
  Claim C5, as the code has it. In a live session, over any run of messages none of which
  carries the interrupted flag (messages with and without audio, in any order), one
  buffer is scheduled for each message that carries audio, with its own duration. The
  first starts at the later of the cursor \<open>nextStartTime\<close> and the clock time read at
  its enqueue. Buffer \<open>i + 1\<close> starts at the later of two times: the sum, as the code
  computes it, of the start of buffer \<open>i\<close> and its duration, and the clock time read
  when buffer \<open>i + 1\<close> is enqueued; so it never starts before that sum, and it starts
  exactly at it whenever the clock has not passed it. After the run the cursor is the
  sum of the last start and the last duration. Messages without audio leave the cursor
  alone.
\<close>

theorem gapless_schedule:
  assumes "\<not> cleanup st" and "outputContext st"
    and "\<forall>em \<in> set ems. \<not> interrupted (snd em)"
  shows
   "length (started (run ems st)) = length (started st) + length (filter carriesAudio ems) \<and>
    (\<forall>i < length (filter carriesAudio ems).
       snd (snd (started (run ems st) ! (length (started st) + i)))
         = bufferDuration (fst (filter carriesAudio ems ! i))) \<and>
    (filter carriesAudio ems \<noteq> [] \<longrightarrow>
       fst (snd (started (run ems st) ! length (started st)))
         = max (nextStartTime st) (currentTime (fst (filter carriesAudio ems ! 0))) \<and>
       nextStartTime (run ems st)
         = fst (snd (last (started (run ems st)))) + snd (snd (last (started (run ems st))))) \<and>
    (filter carriesAudio ems = [] \<longrightarrow> nextStartTime (run ems st) = nextStartTime st) \<and>
    (\<forall>i. Suc i < length (filter carriesAudio ems) \<longrightarrow>
       fst (snd (started (run ems st) ! (length (started st) + Suc i)))
         = max (fst (snd (started (run ems st) ! (length (started st) + i)))
                + snd (snd (started (run ems st) ! (length (started st) + i))))
               (currentTime (fst (filter carriesAudio ems ! Suc i))) \<and>
       fst (snd (started (run ems st) ! (length (started st) + i)))
         + snd (snd (started (run ems st) ! (length (started st) + i)))
         \<le> fst (snd (started (run ems st) ! (length (started st) + Suc i))) \<and>
       (currentTime (fst (filter carriesAudio ems ! Suc i))
          \<le> fst (snd (started (run ems st) ! (length (started st) + i)))
            + snd (snd (started (run ems st) ! (length (started st) + i))) \<longrightarrow>
        fst (snd (started (run ems st) ! (length (started st) + Suc i)))
          = fst (snd (started (run ems st) ! (length (started st) + i)))
            + snd (snd (started (run ems st) ! (length (started st) + i)))))"
proof (intro conjI allI impI)
  show "length (started (run ems st)) = length (started st) + length (filter carriesAudio ems)"
    using assms(1,2) by (rule run_count)
next
  fix i assume "i < length (filter carriesAudio ems)"
  from entry_at [OF assms this]
  show "snd (snd (started (run ems st) ! (length (started st) + i)))
         = bufferDuration (fst (filter carriesAudio ems ! i))" by simp
next
  assume ne: "filter carriesAudio ems \<noteq> []"
  then have "0 < length (filter carriesAudio ems)" by simp
  from entry_at [OF assms this]
  show "fst (snd (started (run ems st) ! length (started st)))
         = max (nextStartTime st) (currentTime (fst (filter carriesAudio ems ! 0)))" by simp
  from run_cursor [OF assms] ne
  show "nextStartTime (run ems st)
         = fst (snd (last (started (run ems st)))) + snd (snd (last (started (run ems st))))"
    by simp
next
  assume "filter carriesAudio ems = []"
  with run_cursor [OF assms] show "nextStartTime (run ems st) = nextStartTime st" by simp
next
  fix i assume i: "Suc i < length (filter carriesAudio ems)"
  from entry_at [OF assms i]
  show e: "fst (snd (started (run ems st) ! (length (started st) + Suc i)))
         = max (fst (snd (started (run ems st) ! (length (started st) + i)))
                + snd (snd (started (run ems st) ! (length (started st) + i))))
               (currentTime (fst (filter carriesAudio ems ! Suc i)))" by simp
  show "fst (snd (started (run ems st) ! (length (started st) + i)))
         + snd (snd (started (run ems st) ! (length (started st) + i)))
         \<le> fst (snd (started (run ems st) ! (length (started st) + Suc i)))"
    unfolding e by (rule max.cobounded1)
  assume "currentTime (fst (filter carriesAudio ems ! Suc i))
          \<le> fst (snd (started (run ems st) ! (length (started st) + i)))
            + snd (snd (started (run ems st) ! (length (started st) + i)))"
  then show "fst (snd (started (run ems st) ! (length (started st) + Suc i)))
          = fst (snd (started (run ems st) ! (length (started st) + i)))
            + snd (snd (started (run ems st) ! (length (started st) + i)))"
    unfolding e by (rule max_absorb1)
qed

text \<open>
  The unconditional reading fails: two buffers of one second, the second enqueued when
  the clock shows 5, start at 0 and at 5, not at 0 and 1.
\<close>

theorem gapless_counterexample:
  "fst (snd (started (run [(env0, audioMsg), (env0\<lparr>currentTime := 5\<rparr>, audioMsg)]
                          (mountEffects initial)) ! 1))
   \<noteq> fst (snd (started (run [(env0, audioMsg), (env0\<lparr>currentTime := 5\<rparr>, audioMsg)]
                          (mountEffects initial)) ! 0))
     + snd (snd (started (run [(env0, audioMsg), (env0\<lparr>currentTime := 5\<rparr>, audioMsg)]
                          (mountEffects initial)) ! 0))"
  by (simp add: onmessage_started onmessage_cleanup onmessage_outputContext onmessage_nextSource
        onmessage_nextStartTime ready_fields audioMsg_def emptyMsg_def truthy_def env0_def)

theorem gapless_schedule_witness:
  "started (run [(env0, audioMsg),
                 (env0\<lparr>currentTime := 2\<rparr>, emptyMsg\<lparr>outputTranscription := Some (js ''Oi'')\<rparr>),
                 (env0\<lparr>currentTime := 3\<rparr>, emptyMsg\<lparr>turnComplete := True\<rparr>),
                 (env0\<lparr>currentTime := 5\<rparr>, audioMsg),
                 (env0\<lparr>currentTime := 5.5\<rparr>, audioMsg)] (mountEffects initial))
     = [(0, 0, 1), (1, 5, 1), (2, 6, 1)] \<and>
   nextStartTime (run [(env0, audioMsg),
                 (env0\<lparr>currentTime := 2\<rparr>, emptyMsg\<lparr>outputTranscription := Some (js ''Oi'')\<rparr>),
                 (env0\<lparr>currentTime := 3\<rparr>, emptyMsg\<lparr>turnComplete := True\<rparr>),
                 (env0\<lparr>currentTime := 5\<rparr>, audioMsg),
                 (env0\<lparr>currentTime := 5.5\<rparr>, audioMsg)] (mountEffects initial)) = 6 + 1"
  using gapless_schedule [of "mountEffects initial"
      "[(env0, audioMsg),
        (env0\<lparr>currentTime := 2\<rparr>, emptyMsg\<lparr>outputTranscription := Some (js ''Oi'')\<rparr>),
        (env0\<lparr>currentTime := 3\<rparr>, emptyMsg\<lparr>turnComplete := True\<rparr>),
        (env0\<lparr>currentTime := 5\<rparr>, audioMsg),
        (env0\<lparr>currentTime := 5.5\<rparr>, audioMsg)]"]
  by (simp add: onmessage_started onmessage_cleanup onmessage_outputContext onmessage_nextSource
        onmessage_nextStartTime ready_fields audioMsg_def carriesAudio_def)

section \<open>Transcript assembly\<close>

lemma updater_Nil_full:
  "updater now inp out tc [] =
     (let opened = (if truthy inp
                    then [\<lparr>msg_id = now, role = User, msg_text = str inp, isPartial = True\<rparr>]
                    else []) @
                   (if truthy out
                    then [\<lparr>msg_id = now, role = Model, msg_text = cleanText (str out),
                           isPartial = True\<rparr>]
                    else [])
      in if tc \<and> opened \<noteq> [] then butlast opened @ [(last opened)\<lparr>isPartial := False\<rparr>]
         else opened)"
  by (simp add: updater_def appendInput_def appendOutput_def finalizeLast_def Let_def)

lemma updater_props_Nil:
  assumes "new = updater now inp out tc []"
  shows "map (\<lambda>m. (msg_id m, role m, msg_text m)) new =
           (if truthy inp then [(now, User, str inp)] else []) @
           (if truthy out then [(now, Model, cleanText (str out))] else [])"
    and "\<forall>k < length new. isPartial (new ! k) =
           (if Suc k = length new \<and> tc \<and> (truthy inp \<or> truthy out) then False else True)"
  unfolding assms
  by (auto simp add: updater_def appendInput_def appendOutput_def finalizeLast_def Let_def
        nth_append less_Suc_eq)

lemma updater_props_snoc:
  assumes "new = updater now inp out tc (ys @ [y])"
  shows "length (ys @ [y]) \<le> length new"
    and "take (length ys) new = ys"
    and "role (new ! length ys) = role y" "msg_id (new ! length ys) = msg_id y"
    and "\<not> isPartial y \<longrightarrow> new ! length ys = y"
    and "msg_text (new ! length ys) =
           (if isPartial y \<and> role y = User \<and> truthy inp then msg_text y @ str inp
            else if isPartial y \<and> role y = Model \<and> \<not> truthy inp \<and> truthy out
            then cleanText (msg_text y @ str out)
            else msg_text y)"
    and "map (\<lambda>m. (msg_id m, role m, msg_text m)) (drop (Suc (length ys)) new) =
           (if truthy inp \<and> \<not> (role y = User \<and> isPartial y)
            then [(now, User, str inp)] else []) @
           (if truthy out \<and> (truthy inp \<or> \<not> (role y = Model \<and> isPartial y))
            then [(now, Model, cleanText (str out))] else [])"
    and "\<forall>k < length new. isPartial (new ! k) =
           (if Suc k = length new \<and> tc then False
            else if k < length ys then isPartial (ys ! k)
            else if k = length ys then isPartial y else True)"
  unfolding assms
  by (cases "role y";
      auto simp add: updater_def appendInput_def appendOutput_def finalizeLast_def Let_def
        nth_append butlast_append less_Suc_eq)+

text \<open>
  Claim C8. Handling a message never shortens the message sequence and leaves every
  message but the last as it was; the trailing message keeps its role and id and, when
  it is already finalized, is untouched. In a live session the text of the trailing
  message changes only when it is partial and of the role of the arriving fragment: a
  user fragment is appended to the end of a trailing partial user message, a model
  fragment (in a message with no user fragment) to the end of a trailing partial model
  message, whose text then passes through \<open>cleanText\<close>; in every other case,
  a trailing message of the other role included, its text stays. The messages appended
  are exactly: a user message holding the user fragment when no trailing partial user
  message takes it, then a model message holding the cleaned model fragment when no
  trailing partial model message takes it, both with the current time as id. Partial
  flags are unchanged for old messages and set for new ones, except that the last
  message is finalized when the message carries both text and the turn-complete signal.
\<close>

theorem transcript_update_trailing_only:
  assumes "prev = messages st" and "new = messages (onmessage env msg st)"
    and "inp = inputTranscription msg" and "out = outputTranscription msg"
  shows
   "length prev \<le> length new \<and>
    take (length prev - 1) new = butlast prev \<and>
    (prev \<noteq> [] \<longrightarrow>
       role (new ! (length prev - 1)) = role (last prev) \<and>
       msg_id (new ! (length prev - 1)) = msg_id (last prev)) \<and>
    (prev \<noteq> [] \<and> \<not> isPartial (last prev) \<longrightarrow> take (length prev) new = prev) \<and>
    (prev \<noteq> [] \<longrightarrow>
       msg_text (new ! (length prev - 1)) =
         (if \<not> cleanup st \<and> isPartial (last prev) \<and> role (last prev) = User \<and> truthy inp
          then msg_text (last prev) @ str inp
          else if \<not> cleanup st \<and> isPartial (last prev) \<and> role (last prev) = Model \<and>
                  \<not> truthy inp \<and> truthy out
          then cleanText (msg_text (last prev) @ str out)
          else msg_text (last prev))) \<and>
    map (\<lambda>m. (msg_id m, role m, msg_text m)) (drop (length prev) new) =
      (if \<not> cleanup st \<and> truthy inp \<and>
          \<not> (prev \<noteq> [] \<and> role (last prev) = User \<and> isPartial (last prev))
       then [(dateNow env, User, str inp)] else []) @
      (if \<not> cleanup st \<and> truthy out \<and>
          (truthy inp \<or> \<not> (prev \<noteq> [] \<and> role (last prev) = Model \<and> isPartial (last prev)))
       then [(dateNow env, Model, cleanText (str out))] else []) \<and>
    (\<forall>k < length new. isPartial (new ! k) =
       (if Suc k = length new \<and> \<not> cleanup st \<and> turnComplete msg \<and> (truthy inp \<or> truthy out)
        then False
        else if k < length prev then isPartial (prev ! k) else True))"
proof (cases "\<not> cleanup st \<and> (truthy inp \<or> truthy out)")
  case False
  have np: "new = prev"
    using False assms by (auto simp add: onmessage_messages)
  have c: "cleanup st \<or> (\<not> truthy inp \<and> \<not> truthy out)"
    using False by blast
  show ?thesis
  proof (intro conjI)
    show "take (length prev - 1) new = butlast prev"
      by (simp add: np butlast_conv_take)
    show "map (\<lambda>m. (msg_id m, role m, msg_text m)) (drop (length prev) new) =
      (if \<not> cleanup st \<and> truthy inp \<and>
          \<not> (prev \<noteq> [] \<and> role (last prev) = User \<and> isPartial (last prev))
       then [(dateNow env, User, str inp)] else []) @
      (if \<not> cleanup st \<and> truthy out \<and>
          (truthy inp \<or> \<not> (prev \<noteq> [] \<and> role (last prev) = Model \<and> isPartial (last prev)))
       then [(dateNow env, Model, cleanText (str out))] else [])"
      using c by (auto simp add: np)
    show "\<forall>k < length new. isPartial (new ! k) =
       (if Suc k = length new \<and> \<not> cleanup st \<and> turnComplete msg \<and> (truthy inp \<or> truthy out)
        then False
        else if k < length prev then isPartial (prev ! k) else True)"
      using c by (auto simp add: np)
    show "prev \<noteq> [] \<longrightarrow>
       msg_text (new ! (length prev - 1)) =
         (if \<not> cleanup st \<and> isPartial (last prev) \<and> role (last prev) = User \<and> truthy inp
          then msg_text (last prev) @ str inp
          else if \<not> cleanup st \<and> isPartial (last prev) \<and> role (last prev) = Model \<and>
                  \<not> truthy inp \<and> truthy out
          then cleanText (msg_text (last prev) @ str out)
          else msg_text (last prev))"
      using c by (auto simp add: np last_conv_nth)
  qed (simp_all add: np last_conv_nth)
next
  case True
  then have live: "\<not> cleanup st" and some: "truthy inp \<or> truthy out" by simp_all
  have eq: "new = updater (dateNow env) inp out (turnComplete msg) prev"
    using True assms by (simp add: onmessage_messages)
  show ?thesis
  proof (cases prev rule: rev_cases)
    case Nil
    note p = updater_props_Nil [OF eq [unfolded Nil]]
    show ?thesis
    proof (intro conjI)
      show "map (\<lambda>m. (msg_id m, role m, msg_text m)) (drop (length prev) new) =
        (if \<not> cleanup st \<and> truthy inp \<and>
            \<not> (prev \<noteq> [] \<and> role (last prev) = User \<and> isPartial (last prev))
         then [(dateNow env, User, str inp)] else []) @
        (if \<not> cleanup st \<and> truthy out \<and>
            (truthy inp \<or> \<not> (prev \<noteq> [] \<and> role (last prev) = Model \<and> isPartial (last prev)))
         then [(dateNow env, Model, cleanText (str out))] else [])"
        using p(1) live by (simp add: Nil)
      show "\<forall>k < length new. isPartial (new ! k) =
         (if Suc k = length new \<and> \<not> cleanup st \<and> turnComplete msg \<and> (truthy inp \<or> truthy out)
          then False
          else if k < length prev then isPartial (prev ! k) else True)"
        using p(2) live by (simp add: Nil)
    qed (simp_all add: Nil)
  next
    case (snoc ys y)
    have e: "new = updater (dateNow env) inp out (turnComplete msg) (ys @ [y])"
      using eq snoc by simp
    note p = updater_props_snoc [OF e]
    have len: "Suc (length ys) \<le> length new" using p(1) by simp
    have t5: "take (Suc (length ys)) new = take (length ys) new @ [new ! length ys]"
      using len by (simp add: take_Suc_conv_app_nth)
    show ?thesis
    proof (intro conjI)
      show "length prev \<le> length new" using len by (simp add: snoc)
      show "take (length prev - 1) new = butlast prev" using p(2) by (simp add: snoc)
      show "prev \<noteq> [] \<longrightarrow>
         role (new ! (length prev - 1)) = role (last prev) \<and>
         msg_id (new ! (length prev - 1)) = msg_id (last prev)"
        using p(3,4) by (simp add: snoc)
      show "prev \<noteq> [] \<and> \<not> isPartial (last prev) \<longrightarrow> take (length prev) new = prev"
        using p(5) p(2) t5 by (simp add: snoc)
      show "prev \<noteq> [] \<longrightarrow>
         msg_text (new ! (length prev - 1)) =
           (if \<not> cleanup st \<and> isPartial (last prev) \<and> role (last prev) = User \<and> truthy inp
            then msg_text (last prev) @ str inp
            else if \<not> cleanup st \<and> isPartial (last prev) \<and> role (last prev) = Model \<and>
                    \<not> truthy inp \<and> truthy out
            then cleanText (msg_text (last prev) @ str out)
            else msg_text (last prev))"
        using live by (simp add: snoc p(6))
      show "map (\<lambda>m. (msg_id m, role m, msg_text m)) (drop (length prev) new) =
        (if \<not> cleanup st \<and> truthy inp \<and>
            \<not> (prev \<noteq> [] \<and> role (last prev) = User \<and> isPartial (last prev))
         then [(dateNow env, User, str inp)] else []) @
        (if \<not> cleanup st \<and> truthy out \<and>
            (truthy inp \<or> \<not> (prev \<noteq> [] \<and> role (last prev) = Model \<and> isPartial (last prev)))
         then [(dateNow env, Model, cleanText (str out))] else [])"
        using live by (simp add: snoc p(7))
      show "\<forall>k < length new. isPartial (new ! k) =
         (if Suc k = length new \<and> \<not> cleanup st \<and> turnComplete msg \<and> (truthy inp \<or> truthy out)
          then False
          else if k < length prev then isPartial (prev ! k) else True)"
      proof (intro allI impI)
        fix k assume k: "k < length new"
        have "isPartial (new ! k) =
           (if Suc k = length new \<and> turnComplete msg then False
            else if k < length ys then isPartial (ys ! k)
            else if k = length ys then isPartial y else True)"
          using p(8) k by blast
        then show "isPartial (new ! k) =
         (if Suc k = length new \<and> \<not> cleanup st \<and> turnComplete msg \<and> (truthy inp \<or> truthy out)
          then False
          else if k < length prev then isPartial (prev ! k) else True)"
          using live some by (auto simp add: snoc nth_append less_Suc_eq)
      qed
    qed
  qed
qed

lemma cleanText_plain:
  "cleanText (js ''Oi'') = js ''Oi''" "cleanText (js ''Oi'' @ js ''!'') = js ''Oi'' @ js ''!''"
  by (simp_all add: cleanText_def startsWith_def THOUGHT_def js_def)

lemma twoTurns_fields:
  "messages twoTurns =
     [\<lparr>msg_id = 0, role = User, msg_text = js ''Bom'' @ js '' dia'', isPartial = True\<rparr>,
      \<lparr>msg_id = 1, role = Model, msg_text = js ''Oi'', isPartial = True\<rparr>]"
  "\<not> cleanup twoTurns"
  by (simp_all add: twoTurns_def onmessage_messages onmessage_cleanup ready_fields updater_def
        appendInput_def appendOutput_def cleanText_plain)

theorem transcript_update_trailing_only_witness:
  "take 1 (messages (onmessage (env0\<lparr>dateNow := 2\<rparr>)
                       (emptyMsg\<lparr>outputTranscription := Some (js ''!'')\<rparr>) twoTurns))
     = [\<lparr>msg_id = 0, role = User, msg_text = js ''Bom'' @ js '' dia'', isPartial = True\<rparr>] \<and>
   msg_text (messages (onmessage (env0\<lparr>dateNow := 2\<rparr>)
                       (emptyMsg\<lparr>outputTranscription := Some (js ''!'')\<rparr>) twoTurns) ! 1)
     = js ''Oi'' @ js ''!'' \<and>
   drop 2 (messages (onmessage (env0\<lparr>dateNow := 2\<rparr>)
                       (emptyMsg\<lparr>outputTranscription := Some (js ''!'')\<rparr>) twoTurns)) = [] \<and>
   take 1 (messages (onmessage (env0\<lparr>dateNow := 3\<rparr>)
                       (emptyMsg\<lparr>inputTranscription := Some (js ''Sim'')\<rparr>) twoTurns))
     = [\<lparr>msg_id = 0, role = User, msg_text = js ''Bom'' @ js '' dia'', isPartial = True\<rparr>] \<and>
   msg_text (messages (onmessage (env0\<lparr>dateNow := 3\<rparr>)
                       (emptyMsg\<lparr>inputTranscription := Some (js ''Sim'')\<rparr>) twoTurns) ! 1)
     = js ''Oi'' \<and>
   map (\<lambda>m. (msg_id m, role m, msg_text m))
     (drop 2 (messages (onmessage (env0\<lparr>dateNow := 3\<rparr>)
                         (emptyMsg\<lparr>inputTranscription := Some (js ''Sim'')\<rparr>) twoTurns)))
     = [(3, User, js ''Sim'')]"
  using transcript_update_trailing_only [OF refl refl refl refl, of twoTurns
            "env0\<lparr>dateNow := 2\<rparr>" "emptyMsg\<lparr>outputTranscription := Some (js ''!'')\<rparr>"]
        transcript_update_trailing_only [OF refl refl refl refl, of twoTurns
            "env0\<lparr>dateNow := 3\<rparr>" "emptyMsg\<lparr>inputTranscription := Some (js ''Sim'')\<rparr>"]
  by (simp add: twoTurns_fields cleanText_plain numeral_2_eq_2)

section \<open>The stall watchdog\<close>

declare advance.simps [simp del]

lemma advance_idle: "watchdog st = None \<Longrightarrow> advance n st = st"
  by (subst advance.simps) simp

lemma advance_before:
  "watchdog st = Some r \<Longrightarrow> n < r \<Longrightarrow> advance n st = st\<lparr>watchdog := Some (r - n)\<rparr>"
  by (subst advance.simps) simp

lemma advance_due:
  "watchdog st = Some r \<Longrightarrow> r \<le> n \<Longrightarrow> advance n st = advance (n - r) (watchdogFire st)"
  by (subst advance.simps) simp

lemma watchdogFire_thinking:
  "isThinking st \<Longrightarrow>
   watchdog (watchdogFire st) = None \<and> isThinking (watchdogFire st) \<and>
   sent (watchdogFire st) = sent st @ [WakeStimulus]"
  by (simp add: watchdogFire_def commitThinking_def triggerModel_def)

text \<open>
  When the timer runs, \<open>triggerModel\<close> sets a flag that is already set, so the effect
  does not run again and no new timer is pending.
\<close>

lemma watchdog_not_rearmed:
  assumes "isThinking st" and "watchdog st = Some r" and "r \<le> n"
  shows "watchdog (advance n st) = None \<and> sent (advance n st) = sent st @ [WakeStimulus]"
  using assms watchdogFire_thinking [of st]
  by (simp add: advance_due advance_idle)

lemma onmessage_watchdog_cancel:
  assumes "\<not> cleanup st" and "isThinking st" and "\<not> truthy (inputTranscription msg)"
    and "(truthy (audioData msg) \<and> outputContext st) \<or> interrupted msg \<or> turnComplete msg"
  shows "watchdog (onmessage env msg st) = None"
  using assms by (auto simp add: onmessage_def Let_def commitThinking_def)

lemma onmessage_watchdog_start:
  assumes "\<not> cleanup st" and "\<not> isThinking st" and "truthy (inputTranscription msg)"
  shows "watchdog (onmessage env msg st) = Some 4000"
  using assms by (auto simp add: onmessage_def Let_def commitThinking_def)

lemma onmessage_watchdog_keep:
  assumes "\<not> cleanup st" and "isThinking st"
    and "\<not> (truthy (audioData msg) \<and> outputContext st)" "\<not> interrupted msg" "\<not> turnComplete msg"
  shows "watchdog (onmessage env msg st) = watchdog st"
  using assms by (auto simp add: onmessage_def Let_def commitThinking_def)

text \<open>
  Claim C2, as the code has it. In a live session: when the thinking flag goes from
  unset to set, by a wake stimulus or by user speech in a message, a timer of 4000 ms
  is pending. A message that carries model audio, the interrupted flag or the
  turn-complete signal, and no user speech, clears the pending timer, and no wake
  stimulus is sent however long one waits afterwards. A message that carries none of
  the three (a model transcript fragment alone, say) leaves the timer as it is. While
  the flag stays set nothing is sent before the timer is due, and exactly one wake
  stimulus is sent when it is due.
\<close>

theorem watchdog_behaviour:
  assumes "\<not> cleanup st"
  shows "(\<not> isThinking st \<longrightarrow>
            isThinking (wake st) \<and> watchdog (wake st) = Some 4000) \<and>
         (\<not> isThinking st \<and> truthy (inputTranscription msg) \<longrightarrow>
            isThinking (onmessage env msg st) \<and> watchdog (onmessage env msg st) = Some 4000) \<and>
         (isThinking st \<and> watchdog st = Some r \<and> \<not> truthy (inputTranscription msg) \<and>
          ((truthy (audioData msg) \<and> outputContext st) \<or> interrupted msg \<or> turnComplete msg) \<longrightarrow>
            watchdog (onmessage env msg st) = None \<and>
            (\<forall>n. sent (advance n (onmessage env msg st)) = sent st)) \<and>
         (isThinking st \<and> watchdog st = Some r \<and>
          \<not> (truthy (audioData msg) \<and> outputContext st) \<and> \<not> interrupted msg \<and>
          \<not> turnComplete msg \<longrightarrow>
            watchdog (onmessage env msg st) = Some r) \<and>
         (isThinking st \<and> watchdog st = Some r \<longrightarrow>
            (\<forall>n < r. sent (advance n st) = sent st) \<and>
            sent (advance r st) = sent st @ [WakeStimulus])"
proof (intro conjI impI)
  assume "\<not> isThinking st"
  then show "isThinking (wake st)" "watchdog (wake st) = Some 4000"
    by (simp_all add: wake_def commitThinking_def triggerModel_def)
next
  assume a: "\<not> isThinking st \<and> truthy (inputTranscription msg)"
  then show "isThinking (onmessage env msg st)"
    using assms by (simp add: onmessage_isThinking)
  from a show "watchdog (onmessage env msg st) = Some 4000"
    using assms by (simp add: onmessage_watchdog_start)
next
  assume a: "isThinking st \<and> watchdog st = Some r \<and> \<not> truthy (inputTranscription msg) \<and>
          ((truthy (audioData msg) \<and> outputContext st) \<or> interrupted msg \<or> turnComplete msg)"
  then show c: "watchdog (onmessage env msg st) = None"
    using assms by (intro onmessage_watchdog_cancel) simp_all
  show "\<forall>n. sent (advance n (onmessage env msg st)) = sent st"
    by (simp add: advance_idle [OF c] onmessage_sent)
next
  assume a: "isThinking st \<and> watchdog st = Some r \<and>
          \<not> (truthy (audioData msg) \<and> outputContext st) \<and> \<not> interrupted msg \<and>
          \<not> turnComplete msg"
  then have "watchdog (onmessage env msg st) = watchdog st"
    using assms by (intro onmessage_watchdog_keep) simp_all
  with a show "watchdog (onmessage env msg st) = Some r" by simp
next
  assume a: "isThinking st \<and> watchdog st = Some r"
  then show "\<forall>n < r. sent (advance n st) = sent st"
    by (simp add: advance_before)
  from a show "sent (advance r st) = sent st @ [WakeStimulus]"
    using watchdog_not_rearmed [of st r r] by simp
qed

lemma wake_ready:
  "\<not> cleanup (wake (mountEffects initial))" "isThinking (wake (mountEffects initial))"
  "watchdog (wake (mountEffects initial)) = Some 4000"
  "sent (wake (mountEffects initial)) = [WakeStimulus]"
  "outputContext (wake (mountEffects initial))"
  by (simp_all add: wake_def commitThinking_def triggerModel_def mountEffects_def initial_def)

lemma advance_fields:
  "watchdog st = Some r \<Longrightarrow> n < r \<Longrightarrow> cleanup (advance n st) = cleanup st"
  "watchdog st = Some r \<Longrightarrow> n < r \<Longrightarrow> isThinking (advance n st) = isThinking st"
  "watchdog st = Some r \<Longrightarrow> n < r \<Longrightarrow> watchdog (advance n st) = Some (r - n)"
  "watchdog st = Some r \<Longrightarrow> n < r \<Longrightarrow> sent (advance n st) = sent st"
  by (simp_all add: advance_before)

theorem watchdog_behaviour_witness:
  "sent (advance 100 (onmessage env0 (emptyMsg\<lparr>turnComplete := True\<rparr>)
           (advance 3900 (wake (mountEffects initial))))) = [WakeStimulus] \<and>
   sent (advance 4000 (wake (mountEffects (initial :: real session))))
     = [WakeStimulus, WakeStimulus]"
proof -
  let ?st = "advance 3900 (wake (mountEffects (initial :: real session)))"
  have f: "\<not> cleanup ?st" "isThinking ?st" "watchdog ?st = Some 100" "sent ?st = [WakeStimulus]"
    using advance_fields [OF wake_ready(3), of 3900] by (simp_all add: wake_ready)
  have "sent (advance 100 (onmessage env0 (emptyMsg\<lparr>turnComplete := True\<rparr>) ?st)) = [WakeStimulus]"
    using watchdog_behaviour [OF f(1), where msg = "emptyMsg\<lparr>turnComplete := True\<rparr>"
            and r = 100 and env = env0] f
    by simp
  moreover have "sent (advance 4000 (wake (mountEffects (initial :: real session))))
      = [WakeStimulus, WakeStimulus]"
    using watchdog_behaviour [where st = "wake (mountEffects (initial :: real session))"
            and msg = emptyMsg and r = 4000 and env = env0]
    by (simp add: wake_ready)
  ultimately show ?thesis by simp
qed

text \<open>
  The claim as stated fails for a model transcript fragment: one that arrives one second
  after the wake stimulus does not cancel the watchdog, and the stimulus is sent again
  when the four seconds are over.
\<close>

theorem watchdog_transcript_counterexample:
  "sent (advance 3000 (onmessage env0 (emptyMsg\<lparr>outputTranscription := Some (js ''Oi'')\<rparr>)
           (advance 1000 (wake (mountEffects initial))))) = [WakeStimulus, WakeStimulus]"
proof -
  let ?st = "advance 1000 (wake (mountEffects (initial :: real session)))"
  let ?st2 = "onmessage env0 (emptyMsg\<lparr>outputTranscription := Some (js ''Oi'')\<rparr>) ?st"
  have f: "\<not> cleanup ?st" "isThinking ?st" "watchdog ?st = Some 3000" "sent ?st = [WakeStimulus]"
    using advance_fields [OF wake_ready(3), of 1000] by (simp_all add: wake_ready)
  have w: "watchdog ?st2 = Some 3000"
    using onmessage_watchdog_keep [OF f(1,2), of "emptyMsg\<lparr>outputTranscription := Some (js ''Oi'')\<rparr>" env0] f(3)
    by simp
  have t: "isThinking ?st2"
    using f by (simp add: onmessage_isThinking)
  have "sent ?st2 = [WakeStimulus]"
    by (simp add: onmessage_sent f)
  then show ?thesis
    using watchdog_not_rearmed [OF t w, of 3000] by simp
qed

section \<open>Turn completion\<close>

lemma turnComplete_with_text_finalizes:
  assumes "\<not> cleanup st" and "turnComplete msg"
    and "truthy (inputTranscription msg) \<or> truthy (outputTranscription msg)"
  shows "messages (onmessage env msg st) \<noteq> [] \<and> \<not> isPartial (last (messages (onmessage env msg st)))"
  using assms
  by (auto simp add: onmessage_messages updater_def finalizeLast_def appendInput_def
        appendOutput_def Let_def)

lemma turnComplete_without_text:
  assumes "\<not> cleanup st" and "turnComplete msg"
    and "\<not> truthy (inputTranscription msg)" "\<not> truthy (outputTranscription msg)"
  shows "turnCount (onmessage env msg st) = turnCount st + 1 \<and>
         messages (onmessage env msg st) = messages st"
  using assms by (simp add: onmessage_messages onmessage_turnCount)

text \<open>
  Claim C4 at a message that carries the turn-complete signal and no transcription: the
  turn counter goes up by one, but the updater that finalizes the trailing message is
  only called when the message carries transcription text, so the trailing model message
  \<open>Oi\<close> is still partial afterwards.
\<close>

theorem turnComplete_alone_leaves_partial:
  "messages (onmessage env0 (emptyMsg\<lparr>outputTranscription := Some (js ''Oi'')\<rparr>)
              (mountEffects initial))
     = [\<lparr>msg_id = 0, role = Model, msg_text = js ''Oi'', isPartial = True\<rparr>] \<and>
   messages (onmessage env0 (emptyMsg\<lparr>turnComplete := True\<rparr>)
              (onmessage env0 (emptyMsg\<lparr>outputTranscription := Some (js ''Oi'')\<rparr>)
                 (mountEffects initial)))
     = [\<lparr>msg_id = 0, role = Model, msg_text = js ''Oi'', isPartial = True\<rparr>] \<and>
   turnCount (onmessage env0 (emptyMsg\<lparr>turnComplete := True\<rparr>)
              (onmessage env0 (emptyMsg\<lparr>outputTranscription := Some (js ''Oi'')\<rparr>)
                 (mountEffects initial))) = 1"
proof -
  have c: "cleanText (js ''Oi'') = js ''Oi''"
    by (simp add: cleanText_def startsWith_def THOUGHT_def js_def)
  show ?thesis
    by (simp add: onmessage_messages onmessage_turnCount onmessage_cleanup ready_fields
          updater_def appendOutput_def c)
qed

section \<open>Thought stripping\<close>

lemma cleanText_single_fragment:
  "cleanText (THOUGHT @ js '' about it<ctrl95> Bom dia'') = js ''Bom dia''"
  by (simp add: cleanText_def startsWith_def THOUGHT_def CTRL95_def js_def split_def trim_def
        isWhiteSpace_def)

lemma cleanText_steps:
  "cleanText THOUGHT = []"
  "cleanText (js '' plan'') = js '' plan''"
  "cleanText (js '' plan'' @ js ''<ctrl95>Bom dia'') = js '' plan<ctrl95>Bom dia''"
  by (simp_all add: cleanText_def startsWith_def THOUGHT_def CTRL95_def js_def split_def)

text \<open>
  Claim C3 at the fragments \<open>'\<dots> thought'\<close>, \<open>' plan'\<close>, \<open>'<ctrl95>Bom dia'\<close>: the
  handler stores the cleaned text back into the message, so after the first fragment the
  stored text is empty and no longer starts with the marker; the second fragment is then
  shown although no delimiter has arrived, and the final text is
  \<open>' plan<ctrl95>Bom dia'\<close>, not \<open>'Bom dia'\<close>.
\<close>

theorem thought_leaks_across_fragments:
  "map msg_text (messages (run [(env0, emptyMsg\<lparr>outputTranscription := Some THOUGHT\<rparr>),
                                 (env0, emptyMsg\<lparr>outputTranscription := Some (js '' plan'')\<rparr>)]
                                (mountEffects initial))) = [js '' plan''] \<and>
   map msg_text (messages (run [(env0, emptyMsg\<lparr>outputTranscription := Some THOUGHT\<rparr>),
                                 (env0, emptyMsg\<lparr>outputTranscription := Some (js '' plan'')\<rparr>),
                                 (env0, emptyMsg\<lparr>outputTranscription := Some (js ''<ctrl95>Bom dia'')\<rparr>)]
                                (mountEffects initial))) = [js '' plan<ctrl95>Bom dia'']"
proof -
  have t: "truthy (Some THOUGHT)" by (simp add: THOUGHT_def)
  show ?thesis
    by (simp add: onmessage_messages onmessage_cleanup ready_fields updater_def appendOutput_def
          t cleanText_steps)
qed

section \<open>Microphone gate\<close>

lemma toggleMic_handler: "scriptProcessor (toggleMic st) = scriptProcessor st"
  by (simp add: toggleMic_def Let_def)

lemma closure_handler_always_sends:
  "scriptProcessor st = Some (ClosureHandler True) \<Longrightarrow>
   sent (onaudioprocess frame st) = sent st @ [MicFrame frame]"
  by (simp add: onaudioprocess_def)

text \<open>
  Claim C1 after mount, open and one press of the mute button: the processor's callback
  is still the closure installed in \<open>onopen\<close>, which tests the value \<open>isMicOn\<close> had
  when the session started (the effect that would install the callback reading the ref
  ran at mount, when no processor existed). The flag and the ref are off, and the frame
  is sent.
\<close>

theorem muted_frame_is_sent:
  "scriptProcessor (onopen True (mountEffects (initial :: real session)))
     = Some (ClosureHandler True) \<and>
   \<not> isMicOn (toggleMic (onopen True (mountEffects (initial :: real session)))) \<and>
   \<not> isMicOnRef (toggleMic (onopen True (mountEffects (initial :: real session)))) \<and>
   sent (onaudioprocess 7 (toggleMic (onopen True (mountEffects (initial :: real session)))))
     = [MicFrame 7]"
  by (simp add: onaudioprocess_def toggleMic_def onopen_def mountEffects_def initial_def Let_def)

end
